theory Spec2Isabelle
  imports Main
begin

section \<open>picol: a shallow embedding of \<^verbatim>\<open>picol.c\<close>\<close>

text \<open>
  Every C function of \<^verbatim>\<open>picol.c\<close> that the properties below talk about is a HOL
  function of the same name. C strings are byte lists without the terminating NUL; a
  buffer that the code indexes is the byte list followed by its NUL, and a read or a
  write outside the buffer is the value \<open>Inl OutOfBounds\<close>: C gives such an access no
  meaning. Signed overflow, division by zero and a NULL dereference are values of
  \<open>fault\<close> as well. What the evaluator can run into is a \<open>ub\<close>: a fault of one of
  the functions it calls, or \<open>EmptyArgv\<close>, a token appended to the last word of an
  empty argument vector. The evaluator can run forever (\<^verbatim>\<open>while\<close>), so it takes fuel;
  running out of fuel is \<open>None\<close>, kept apart from every behaviour of the code.
\<close>

subsection \<open>Return codes, token kinds, faults\<close>

datatype retcode = PICOL_OK | PICOL_ERR | PICOL_RETURN | PICOL_BREAK | PICOL_CONTINUE

datatype toktype = PT_ESC | PT_STR | PT_CMD | PT_VAR | PT_SEP | PT_EOL | PT_EOF

datatype fault = OutOfBounds | NullDeref | IntOverflow | DivByZero

datatype ub = Fault fault | EmptyArgv

subsection \<open>Bytes and \<^verbatim>\<open>ctype.h\<close> in the C locale\<close>

text \<open>
  The classes of \<^verbatim>\<open>ctype.h\<close> are those of ASCII; a byte above \<open>0x7F\<close> is in none.
\<close>

definition NUL :: char where
  "NUL = CHR 0x00"

definition ichar :: "char \<Rightarrow> int" where
  "ichar c = of_char c"

definition isgraph :: "char \<Rightarrow> bool" where
  "isgraph c = (33 \<le> ichar c \<and> ichar c \<le> 126)"

definition isdigit :: "char \<Rightarrow> bool" where
  "isdigit c = (48 \<le> ichar c \<and> ichar c \<le> 57)"

definition isupper :: "char \<Rightarrow> bool" where
  "isupper c = (65 \<le> ichar c \<and> ichar c \<le> 90)"

definition islower :: "char \<Rightarrow> bool" where
  "islower c = (97 \<le> ichar c \<and> ichar c \<le> 122)"

definition isalnum :: "char \<Rightarrow> bool" where
  "isalnum c = (isdigit c \<or> isupper c \<or> islower c)"

definition isxdigit :: "char \<Rightarrow> bool" where
  "isxdigit c = (isdigit c \<or> (65 \<le> ichar c \<and> ichar c \<le> 70) \<or> (97 \<le> ichar c \<and> ichar c \<le> 102))"

definition isspace :: "char \<Rightarrow> bool" where
  "isspace c = (ichar c = 32 \<or> (9 \<le> ichar c \<and> ichar c \<le> 13))"

text \<open>
  \<^verbatim>\<open>isalpha\<close> and \<^verbatim>\<open>toupper\<close> take and return an \<^verbatim>\<open>int\<close>, and the code calls
  \<^verbatim>\<open>toxdigit\<close> on the result of \<^verbatim>\<open>isalpha\<close>, so both are modelled on \<open>int\<close>.
  C promises only a non-zero result of \<^verbatim>\<open>isalpha\<close> for a letter; the model takes 1.
  The result for a non-letter is 0 in every C library. The value for a letter reaches a
  result in one place only, \<^verbatim>\<open>toxdigit(isalpha(*s))\<close> of \<^verbatim>\<open>picolEscape\<close> at \<^verbatim>\<open>\x\<close> with
  a single digit that is a letter: there the byte stored is \<open>0xD1\<close> with 1 and another
  byte with another non-zero value (\<open>0xD0\<close> with 1024). No property below evaluates
  \<^verbatim>\<open>isalpha\<close> at a letter.
\<close>

definition isalpha :: "int \<Rightarrow> int" where
  "isalpha c = (if (65 \<le> c \<and> c \<le> 90) \<or> (97 \<le> c \<and> c \<le> 122) then 1 else 0)"

definition toupper :: "int \<Rightarrow> int" where
  "toupper c = (if 97 \<le> c \<and> c \<le> 122 then c - 32 else c)"

definition toxdigit :: "int \<Rightarrow> int" where
  "toxdigit c = (if isalpha c \<noteq> 0 then 10 + (toupper c - 65) else c - 48)"

text \<open>Storing an \<^verbatim>\<open>int\<close> into a \<^verbatim>\<open>char\<close> keeps its low eight bits.\<close>

definition to_char :: "int \<Rightarrow> char" where
  "to_char x = char_of (x mod 256)"

subsection \<open>C strings and buffers\<close>

definition cstr :: "char list \<Rightarrow> string" where
  "cstr b = takeWhile (\<lambda>c. c \<noteq> NUL) b"

definition rd :: "char list \<Rightarrow> nat \<Rightarrow> fault + char" where
  "rd b k = (if k < length b then Inr (b ! k) else Inl OutOfBounds)"

definition wr :: "char list \<Rightarrow> int \<Rightarrow> char \<Rightarrow> fault + char list" where
  "wr b k c = (if 0 \<le> k \<and> nat k < length b then Inr (b[nat k := c]) else Inl OutOfBounds)"

text \<open>\<^verbatim>\<open>strchr(b, c)\<close>: the index of the first \<open>c\<close> before the first NUL.\<close>

fun strchr :: "char list \<Rightarrow> char \<Rightarrow> nat \<Rightarrow> fault + nat option" where
  "strchr [] c k = Inl OutOfBounds"
| "strchr (x # xs) c k =
     (if x = c then Inr (Some k) else if x = NUL then Inr None else strchr xs c (Suc k))"

subsection \<open>The escape decoder\<close>

text \<open>
  \<^verbatim>\<open>for (s++, n--; n > 0 && !isgraph(*s); s++, n--);\<close> of \<^verbatim>\<open>picolEscape\<close>, entered
  after its initialisation: \<open>s\<close> is the read index, \<open>n\<close> the running length.
\<close>

function skipLoop :: "char list \<Rightarrow> nat \<Rightarrow> int \<Rightarrow> fault + (nat \<times> int)" where
  "skipLoop b s n =
     (if 0 < n then
        (case rd b s of
           Inl f \<Rightarrow> Inl f
         | Inr c \<Rightarrow> if \<not> isgraph c then skipLoop b (Suc s) (n - 1) else Inr (s, n))
      else Inr (s, n))"
  by pat_completeness auto
termination
  by (relation "measure (\<lambda>(b, s, n). nat n)") auto

declare skipLoop.simps [simp del]

lemma skipLoop_advances: "skipLoop b s n = Inr (s', n') \<Longrightarrow> s \<le> s'"
proof (induction b s n rule: skipLoop.induct)
  case (1 b s n)
  show ?case
  proof (cases "0 < n \<and> s < length b \<and> \<not> isgraph (b ! s)")
    case True
    with "1.prems" have "skipLoop b (Suc s) (n - 1) = Inr (s', n')"
      by (subst (asm) skipLoop.simps) (simp add: rd_def)
    with True have "Suc s \<le> s'" using "1.IH" [of "b ! s"] by (simp add: rd_def)
    then show ?thesis by simp
  next
    case False
    with "1.prems" show ?thesis
      by (subst (asm) skipLoop.simps) (auto simp: rd_def split: if_splits)
  qed
qed

text \<open>
  The loop \<^verbatim>\<open>for (char *t = s; *s; )\<close> of \<^verbatim>\<open>picolEscape\<close>: \<open>s\<close> reads, \<open>t\<close> writes, both
  indexes into the buffer \<open>b\<close>; the result is the buffer and \<open>n\<close> when \<^verbatim>\<open>*s\<close> is NUL.
\<close>

function escLoop :: "char list \<Rightarrow> nat \<Rightarrow> nat \<Rightarrow> int \<Rightarrow> fault + (char list \<times> int)" where
  "escLoop b s t n =
     (if length b \<le> s then Inl OutOfBounds
      else if b ! s = NUL then Inr (b, n)
      else if b ! s = CHR 0x5C then
        (if length b \<le> Suc s then Inl OutOfBounds
         else if b ! Suc s = CHR ''X'' \<or> b ! Suc s = CHR ''x'' then
           (if length b \<le> s + 2 then Inl OutOfBounds
            else if isxdigit (b ! (s + 2)) then
              (if length b \<le> s + 3 then Inl OutOfBounds
               else if isxdigit (b ! (s + 3)) then
                 escLoop (b[t := to_char (or (push_bit 4 (toxdigit (ichar (b ! (s + 2)))))
                                             (toxdigit (ichar (b ! (s + 3)))))])
                         (s + 4) (Suc t) (n - 2 - 2)
               else
                 escLoop (b[t := to_char (toxdigit (isalpha (ichar (b ! (s + 2)))))])
                         (s + 3) (Suc t) (n - 2 - 1))
            else escLoop b (s + 2) t (n - 2))
         else if b ! Suc s = CHR ''n'' then escLoop (b[t := CHR 0x0A]) (s + 2) (Suc t) (n - 1)
         else if b ! Suc s = CHR ''r'' then escLoop (b[t := CHR 0x0D]) (s + 2) (Suc t) (n - 1)
         else if b ! Suc s = CHR ''t'' then escLoop (b[t := CHR 0x09]) (s + 2) (Suc t) (n - 1)
         else if b ! Suc s = NUL then escLoop b (Suc s) t (n - 1)
         else if isgraph (b ! Suc s) then
           escLoop (b[t := b ! Suc s]) (s + 2) (Suc t) (n - 1)
         else
           (case skipLoop b (s + 2) (n - 1 - 1) of
              Inl f \<Rightarrow> Inl f
            | Inr (s', n') \<Rightarrow> escLoop b s' t n'))
      else escLoop (b[t := b ! s]) (Suc s) (Suc t) n)"
  by pat_completeness auto
termination
  by (relation "measure (\<lambda>(b, s, t, n). length b - s)") (auto dest!: skipLoop_advances)

declare escLoop.simps [simp del]

text \<open>
  \<^verbatim>\<open>picolEscape(b, n)\<close>: the buffer after the call and the returned length. The write
  index never passes the read index, so every write of the loop is inside the buffer;
  the final \<^verbatim>\<open>b[n] = '\0'\<close> is checked.
\<close>

definition picolEscape :: "char list \<Rightarrow> int \<Rightarrow> fault + (char list \<times> int)" where
  "picolEscape b n =
     (case strchr b (CHR 0x5C) 0 of
        Inl f \<Rightarrow> Inl f
      | Inr None \<Rightarrow> (case wr b n NUL of Inl f \<Rightarrow> Inl f | Inr b' \<Rightarrow> Inr (b', n))
      | Inr (Some s) \<Rightarrow>
          (case escLoop b s s n of
             Inl f \<Rightarrow> Inl f
           | Inr (b1, n1) \<Rightarrow> (case wr b1 n1 NUL of Inl f \<Rightarrow> Inl f | Inr b' \<Rightarrow> Inr (b', n1))))"

subsection \<open>The parser\<close>

text \<open>
  \<^verbatim>\<open>struct picolParser\<close>. The fields carry the prefix \<open>p_\<close> (\<open>text\<close>, \<open>end\<close> and
  \<open>type\<close> are not free as names). The pointers \<^verbatim>\<open>pos\<close>, \<^verbatim>\<open>start\<close> and \<^verbatim>\<open>end\<close> are
  indexes into the text; \<^verbatim>\<open>end\<close> is one less than \<^verbatim>\<open>pos\<close> at an empty token, hence an
  \<open>int\<close>. The memory the parser reads is the text followed by its NUL.
\<close>

record picolParser =
  p_text :: string
  p_pos :: nat
  p_start :: nat
  p_end :: int
  p_len :: int
  p_type :: toktype
  p_insidequote :: bool

definition picolInitParser :: "string \<Rightarrow> picolParser" where
  "picolInitParser text =
     \<lparr>p_text = text, p_pos = 0, p_start = 0, p_end = 0, p_len = int (length (cstr text)),
      p_type = PT_EOL, p_insidequote = False\<rparr>"

text \<open>\<^verbatim>\<open>*p->pos\<close>, and \<^verbatim>\<open>p->pos++, p->len--\<close>.\<close>

definition peek :: "picolParser \<Rightarrow> fault + char" where
  "peek p = rd (p_text p @ [NUL]) (p_pos p)"

definition adv :: "picolParser \<Rightarrow> picolParser" where
  "adv p = p\<lparr>p_pos := Suc (p_pos p), p_len := p_len p - 1\<rparr>"

text \<open>The room left in the parser's memory: what the scanning loops count down.\<close>

definition room :: "picolParser \<Rightarrow> nat" where
  "room p = Suc (length (p_text p)) - p_pos p"

lemma room_adv: "peek p = Inr c \<Longrightarrow> room (adv p) < room p"
  by (auto simp: peek_def rd_def room_def adv_def split: if_splits)

text \<open>The loop of \<^verbatim>\<open>picolParseSep\<close>: it tests no length, and NUL is not \<^verbatim>\<open>isgraph\<close>.\<close>

function sepLoop :: "picolParser \<Rightarrow> char \<Rightarrow> fault + picolParser" where
  "sepLoop p eol =
     (case peek p of
        Inl f \<Rightarrow> Inl f
      | Inr c \<Rightarrow>
          if \<not> isgraph c \<or> (eol \<noteq> NUL \<and> c = eol) then sepLoop (adv p) eol else Inr p)"
  by pat_completeness auto
termination
  by (relation "measure (\<lambda>(p, eol). room p)") (auto simp: room_adv)

declare sepLoop.simps [simp del]

definition picolParseSep :: "picolParser \<Rightarrow> char \<Rightarrow> fault + picolParser" where
  "picolParseSep p eol =
     (case sepLoop (p\<lparr>p_start := p_pos p\<rparr>) eol of
        Inl f \<Rightarrow> Inl f
      | Inr q \<Rightarrow>
          Inr (q\<lparr>p_end := int (p_pos q) - 1,
                 p_type := (if eol \<noteq> NUL then PT_EOL else PT_SEP)\<rparr>))"

text \<open>The loop of \<^verbatim>\<open>picolParseCommand\<close>, with its counters \<^verbatim>\<open>level\<close> and \<^verbatim>\<open>blevel\<close>.\<close>

function cmdLoop :: "picolParser \<Rightarrow> int \<Rightarrow> int \<Rightarrow> fault + picolParser" where
  "cmdLoop p level blevel =
     (if 0 < p_len p then
        (case peek p of
           Inl f \<Rightarrow> Inl f
         | Inr c \<Rightarrow>
             if c = CHR 0x5C then
               (if 1 < p_len p then cmdLoop (adv (adv p)) level blevel
                else cmdLoop (adv p) level blevel)
             else if c = CHR ''['' then
               cmdLoop (adv p) (if blevel = 0 then level + 1 else level) blevel
             else if c = CHR '']'' then
               (if blevel = 0 then
                  (if level - 1 = 0 then Inr p else cmdLoop (adv p) (level - 1) blevel)
                else cmdLoop (adv p) level blevel)
             else if c = CHR ''{'' then cmdLoop (adv p) level (blevel + 1)
             else if c = CHR ''}'' then
               cmdLoop (adv p) level (if blevel \<noteq> 0 then blevel - 1 else blevel)
             else cmdLoop (adv p) level blevel)
      else Inr p)"
  by pat_completeness auto
termination
  by (relation "measure (\<lambda>(p, level, blevel). nat (p_len p))") (auto simp: adv_def)

declare cmdLoop.simps [simp del]

definition picolParseCommand :: "picolParser \<Rightarrow> fault + picolParser" where
  "picolParseCommand p =
     (case cmdLoop ((adv p)\<lparr>p_start := Suc (p_pos p)\<rparr>) 1 0 of
        Inl f \<Rightarrow> Inl f
      | Inr q \<Rightarrow>
          (case peek q of
             Inl f \<Rightarrow> Inl f
           | Inr c \<Rightarrow>
               if c = CHR '']'' then Inr (adv (q\<lparr>p_end := int (p_pos q) - 1, p_type := PT_CMD\<rparr>))
               else Inr (q\<lparr>p_end := int (p_pos q) - 1, p_type := PT_CMD\<rparr>)))"

function varLoop :: "picolParser \<Rightarrow> fault + picolParser" where
  "varLoop p =
     (case peek p of
        Inl f \<Rightarrow> Inl f
      | Inr c \<Rightarrow> if isalnum c \<or> c = CHR ''_'' then varLoop (adv p) else Inr p)"
  by pat_completeness auto
termination
  by (relation "measure room") (auto simp: room_adv)

declare varLoop.simps [simp del]

definition picolParseVar :: "picolParser \<Rightarrow> fault + picolParser" where
  "picolParseVar p =
     (case varLoop ((adv p)\<lparr>p_start := Suc (p_pos p)\<rparr>) of
        Inl f \<Rightarrow> Inl f
      | Inr q \<Rightarrow>
          if p_start q = p_pos q then
            Inr (q\<lparr>p_start := p_pos q - 1, p_end := int (p_pos q) - 1, p_type := PT_STR\<rparr>)
          else Inr (q\<lparr>p_end := int (p_pos q) - 1, p_type := PT_VAR\<rparr>))"

function braceLoop :: "picolParser \<Rightarrow> int \<Rightarrow> fault + picolParser" where
  "braceLoop p level =
     (if 0 < p_len p then
        (case peek p of
           Inl f \<Rightarrow> Inl f
         | Inr c \<Rightarrow>
             if c = CHR ''{'' then braceLoop (adv p) (level + 1)
             else if 2 \<le> p_len p \<and> c = CHR 0x5C then braceLoop (adv (adv p)) level
             else if c = CHR ''}'' then
               (if level - 1 = 0 then Inr p else braceLoop (adv p) (level - 1))
             else braceLoop (adv p) level)
      else Inr p)"
  by pat_completeness auto
termination
  by (relation "measure (\<lambda>(p, level). nat (p_len p))") (auto simp: adv_def)

declare braceLoop.simps [simp del]

definition picolParseBrace :: "picolParser \<Rightarrow> fault + picolParser" where
  "picolParseBrace p =
     (case braceLoop ((adv p)\<lparr>p_start := Suc (p_pos p)\<rparr>) 1 of
        Inl f \<Rightarrow> Inl f
      | Inr q \<Rightarrow>
          if 0 < p_len q then Inr ((adv (q\<lparr>p_end := int (p_pos q) - 1\<rparr>))\<lparr>p_type := PT_STR\<rparr>)
          else Inr (q\<lparr>p_end := int (p_pos q) - 1, p_type := PT_STR\<rparr>))"

text \<open>
  The loop of \<^verbatim>\<open>picolParseString\<close>. The labels \<^verbatim>\<open>case '$': case '[':\<close> stand inside
  the \<^verbatim>\<open>default\<close> branch, right before its \<^verbatim>\<open>goto end\<close>.
\<close>

function strLoop :: "picolParser \<Rightarrow> fault + picolParser" where
  "strLoop p =
     (if 0 < p_len p then
        (case peek p of
           Inl f \<Rightarrow> Inl f
         | Inr c \<Rightarrow>
             if c = CHR ''$'' \<or> c = CHR ''['' then
               Inr (p\<lparr>p_end := int (p_pos p) - 1, p_type := PT_ESC\<rparr>)
             else if c = CHR 0x22 then
               (if \<not> p_insidequote p then strLoop (adv p)
                else Inr ((adv (p\<lparr>p_end := int (p_pos p) - 1, p_type := PT_ESC\<rparr>))
                            \<lparr>p_insidequote := False\<rparr>))
             else if c = CHR 0x5C then
               (if 2 \<le> p_len p then strLoop (adv (adv p)) else strLoop (adv p))
             else if (\<not> isgraph c \<or> c = CHR '';'') \<and> \<not> p_insidequote p then
               Inr (p\<lparr>p_end := int (p_pos p) - 1, p_type := PT_ESC\<rparr>)
             else strLoop (adv p))
      else Inr (p\<lparr>p_end := int (p_pos p) - 1, p_type := PT_ESC\<rparr>))"
  by pat_completeness auto
termination
  by (relation "measure (\<lambda>p. nat (p_len p))") (auto simp: adv_def)

declare strLoop.simps [simp del]

definition newword :: "picolParser \<Rightarrow> bool" where
  "newword p = (p_type p = PT_SEP \<or> p_type p = PT_EOL \<or> p_type p = PT_STR)"

definition picolParseString :: "picolParser \<Rightarrow> fault + picolParser" where
  "picolParseString p =
     (if newword p then
        (case peek p of
           Inl f \<Rightarrow> Inl f
         | Inr c \<Rightarrow>
             if c = CHR ''{'' then picolParseBrace p
             else if c = CHR 0x22 then
               strLoop ((adv p)\<lparr>p_insidequote := True, p_start := Suc (p_pos p)\<rparr>)
             else strLoop (p\<lparr>p_start := p_pos p\<rparr>))
      else strLoop (p\<lparr>p_start := p_pos p\<rparr>))"

function picolParseComment :: "picolParser \<Rightarrow> fault + picolParser" where
  "picolParseComment p =
     (if p_len p \<noteq> 0 then
        (case peek p of
           Inl f \<Rightarrow> Inl f
         | Inr c \<Rightarrow> if c \<noteq> CHR 0x0A then picolParseComment (adv p) else Inr p)
      else Inr p)"
  by pat_completeness auto
termination
  by (relation "measure room") (auto simp: room_adv)

declare picolParseComment.simps [simp del]

lemma picolParseComment_room: "picolParseComment p = Inr q \<Longrightarrow> room q \<le> room p"
proof (induction p rule: picolParseComment.induct)
  case (1 p)
  show ?case
  proof (cases "p_len p \<noteq> 0 \<and> (\<exists>c. peek p = Inr c \<and> c \<noteq> CHR 0x0A)")
    case True
    then obtain c where c: "peek p = Inr c" "c \<noteq> CHR 0x0A" "p_len p \<noteq> 0" by blast
    with "1.prems" have "picolParseComment (adv p) = Inr q"
      by (subst (asm) picolParseComment.simps) simp
    with c have "room q \<le> room (adv p)" using "1.IH" [of c] by simp
    with c show ?thesis using room_adv [of p c] by simp
  next
    case False
    with "1.prems" show ?thesis
      by (subst (asm) picolParseComment.simps) (auto split: if_splits sum.splits)
  qed
qed

lemma picolParseComment_hash:
  assumes "0 < p_len p" "peek p = Inr (CHR ''#'')" "picolParseComment p = Inr q"
  shows "room q < room p"
proof -
  from assms have "picolParseComment (adv p) = Inr q"
    by (subst (asm) picolParseComment.simps) simp
  then have "room q \<le> room (adv p)" by (rule picolParseComment_room)
  with assms(2) show ?thesis using room_adv [of p "CHR ''#''"] by simp
qed

text \<open>
  \<^verbatim>\<open>picolGetToken\<close>. Its \<^verbatim>\<open>while\<close> goes round again only after a comment, which
  leaves the token kind as it was.
\<close>

function picolGetToken :: "picolParser \<Rightarrow> fault + picolParser" where
  "picolGetToken p =
     (if 0 < p_len p then
        (case peek p of
           Inl f \<Rightarrow> Inl f
         | Inr c \<Rightarrow>
             if c = CHR 0x0A \<or> c = CHR '';'' then
               (if p_insidequote p then picolParseString p else picolParseSep p (CHR '';''))
             else if c = CHR ''['' then picolParseCommand p
             else if c = CHR ''$'' then picolParseVar p
             else if c = CHR ''#'' then
               (if p_type p \<noteq> PT_EOL then picolParseString p
                else (case picolParseComment p of
                        Inl f \<Rightarrow> Inl f
                      | Inr q \<Rightarrow> picolGetToken q))
             else if isgraph c \<or> p_insidequote p then picolParseString p
             else picolParseSep p NUL)
      else Inr (p\<lparr>p_type := (if p_type p \<noteq> PT_EOL \<and> p_type p \<noteq> PT_EOF then PT_EOL else PT_EOF)\<rparr>))"
  by pat_completeness auto
termination
  by (relation "measure room") (auto simp: picolParseComment_hash)

declare picolGetToken.simps [simp del]

subsection \<open>The interpreter state\<close>

text \<open>
  A variable is its name and value; a call frame is its list of variables, newest
  first, and \<^verbatim>\<open>i->callframe\<close> with the \<^verbatim>\<open>parent\<close> links is the list of frames, current
  frame first (the empty list is the NULL pointer). A command is its name, its handler
  and its private data: NULL, or the pair of a procedure's argument list and body.
  \<open>stdout\<close> collects the lines written by \<^verbatim>\<open>puts\<close>.
\<close>

type_synonym picolVar = "string \<times> string"

type_synonym picolCallFrame = "picolVar list"

datatype picolCmdFunc =
  CommandMath | CommandSet | CommandPuts | CommandIf | CommandWhile | CommandRetCodes
  | CommandCallProc | CommandProc | CommandReturn

record picolCmd =
  c_name :: string
  c_func :: picolCmdFunc
  c_privdata :: "(string \<times> string) option"

record picolInterp =
  level :: int
  callframe :: "picolCallFrame list"
  commands :: "picolCmd list"
  result :: string
  stdout :: "string list"

type_synonym returned = "retcode \<times> picolInterp"

type_synonym outcome = "(ub + returned) option"

definition picolSetResult :: "picolInterp \<Rightarrow> string \<Rightarrow> picolInterp" where
  "picolSetResult i s = i\<lparr>result := cstr s\<rparr>"

text \<open>\<^verbatim>\<open>picolErr\<close>, given the formatted message.\<close>

definition picolErr :: "picolInterp \<Rightarrow> string \<Rightarrow> returned" where
  "picolErr i msg = (PICOL_ERR, i\<lparr>result := msg\<rparr>)"

definition quoted :: "string \<Rightarrow> string" where
  "quoted s = CHR 0x27 # s @ [CHR 0x27]"

definition picolInitInterp :: picolInterp where
  "picolInitInterp = \<lparr>level = 0, callframe = [[]], commands = [], result = [], stdout = []\<rparr>"

definition picolGetVar :: "picolInterp \<Rightarrow> string \<Rightarrow> fault + picolVar option" where
  "picolGetVar i name =
     (case callframe i of
        [] \<Rightarrow> Inl NullDeref
      | cf # parents \<Rightarrow> Inr (find (\<lambda>v. fst v = name) cf))"

fun setval :: "picolVar list \<Rightarrow> string \<Rightarrow> string \<Rightarrow> picolVar list" where
  "setval [] name val = []"
| "setval (v # vs) name val =
     (if fst v = name then (fst v, val) # vs else v # setval vs name val)"

definition picolSetVar :: "picolInterp \<Rightarrow> string \<Rightarrow> string \<Rightarrow> fault + picolInterp" where
  "picolSetVar i name val =
     (case callframe i of
        [] \<Rightarrow> Inl NullDeref
      | cf # parents \<Rightarrow>
          (case find (\<lambda>v. fst v = name) cf of
             Some v \<Rightarrow> Inr (i\<lparr>callframe := setval cf name val # parents\<rparr>)
           | None \<Rightarrow> Inr (i\<lparr>callframe := ((name, val) # cf) # parents\<rparr>)))"

definition picolGetCommand :: "picolInterp \<Rightarrow> string \<Rightarrow> picolCmd option" where
  "picolGetCommand i name = find (\<lambda>c. c_name c = name) (commands i)"

definition picolRegisterCommand ::
  "picolInterp \<Rightarrow> string \<Rightarrow> picolCmdFunc \<Rightarrow> (string \<times> string) option \<Rightarrow> returned" where
  "picolRegisterCommand i name f privdata =
     (case picolGetCommand i name of
        Some c \<Rightarrow> picolErr i (''Command '' @ quoted name @ '' already defined'')
      | None \<Rightarrow>
          (PICOL_OK,
           i\<lparr>commands := \<lparr>c_name = name, c_func = f, c_privdata = privdata\<rparr> # commands i\<rparr>))"

definition picolArityErr :: "picolInterp \<Rightarrow> string \<Rightarrow> returned" where
  "picolArityErr i name = picolErr i (''Wrong number of args for '' @ name)"

subsection \<open>\<^verbatim>\<open>int\<close>, \<^verbatim>\<open>atoi\<close> and \<^verbatim>\<open>%d\<close>\<close>

text \<open>
  \<^verbatim>\<open>int\<close> has four bytes of eight bits. A result outside its range has no meaning in C
  (signed overflow, and \<^verbatim>\<open>atoi\<close> of a number that does not fit), nor has a division by
  zero; C's division truncates towards zero.
\<close>

definition sizeof_int :: nat where
  "sizeof_int = 4"

definition CHAR_BIT :: nat where
  "CHAR_BIT = 8"

definition as_int :: "int \<Rightarrow> fault + int" where
  "as_int x =
     (if - (2 ^ (sizeof_int * CHAR_BIT - 1)) \<le> x \<and> x < 2 ^ (sizeof_int * CHAR_BIT - 1)
      then Inr x else Inl IntOverflow)"

definition c_div :: "int \<Rightarrow> int \<Rightarrow> fault + int" where
  "c_div a b = (if b = 0 then Inl DivByZero else as_int (sgn a * sgn b * (\<bar>a\<bar> div \<bar>b\<bar>)))"

fun atoi_digits :: "string \<Rightarrow> int \<Rightarrow> int" where
  "atoi_digits [] acc = acc"
| "atoi_digits (c # cs) acc =
     (if isdigit c then atoi_digits cs (acc * 10 + (ichar c - 48)) else acc)"

definition atoi :: "string \<Rightarrow> fault + int" where
  "atoi s =
     (case dropWhile isspace s of
        [] \<Rightarrow> Inr 0
      | c # cs \<Rightarrow>
          if c = CHR ''-'' then as_int (- atoi_digits cs 0)
          else if c = CHR ''+'' then as_int (atoi_digits cs 0)
          else as_int (atoi_digits (c # cs) 0))"

text \<open>The decimal digits of a number that is not negative, and \<^verbatim>\<open>%d\<close>.\<close>

function show_digits :: "int \<Rightarrow> string" where
  "show_digits x =
     (if x < 10 then [to_char (48 + x)]
      else show_digits (x div 10) @ [to_char (48 + x mod 10)])"
  by pat_completeness auto
termination
  by (relation "measure nat") auto

declare show_digits.simps [simp del]

definition show_int :: "int \<Rightarrow> string" where
  "show_int x = (if x < 0 then CHR ''-'' # show_digits (- x) else show_digits x)"

text \<open>\<^verbatim>\<open>snprintf(buf, size, "%d", c)\<close>: at most \<^verbatim>\<open>size - 1\<close> characters are stored.\<close>

definition snprintf_d :: "nat \<Rightarrow> int \<Rightarrow> string" where
  "snprintf_d sz c = take (sz - 1) (show_int c)"

text \<open>A \<^verbatim>\<open>char\<close> read as an \<^verbatim>\<open>int\<close> (plain \<^verbatim>\<open>char\<close> is signed).\<close>

definition schar :: "char \<Rightarrow> int" where
  "schar c = (if ichar c < 128 then ichar c else ichar c - 256)"

subsection \<open>The commands that do not evaluate a script\<close>

text \<open>
  A handler gets \<^verbatim>\<open>argv\<close> as the list of its words, \<^verbatim>\<open>argc\<close> being its length; the
  evaluator calls a handler with at least the command's name in it.
\<close>

text \<open>
  The operator test of \<^verbatim>\<open>picolCommandMath\<close>: \<open>opc\<close> is \<^verbatim>\<open>argv[0][0]^argv[0][1]<<8\<close>, and
  \<^verbatim>\<open>c\<close> stays 0 when no operator matches.
\<close>

definition mathop :: "int \<Rightarrow> int \<Rightarrow> int \<Rightarrow> fault + int" where
  "mathop opc a b =
     (if opc = schar (CHR ''+'') then as_int (a + b)
      else if opc = schar (CHR ''-'') then as_int (a - b)
      else if opc = schar (CHR ''*'') then as_int (a * b)
      else if opc = schar (CHR ''/'') then c_div a b
      else if opc = schar (CHR ''>'') then Inr (if a > b then 1 else 0)
      else if opc = xor (schar (CHR ''>'')) (schar (CHR ''='') * 2 ^ 8) then
        Inr (if a \<ge> b then 1 else 0)
      else if opc = schar (CHR ''<'') then Inr (if a < b then 1 else 0)
      else if opc = xor (schar (CHR ''<'')) (schar (CHR ''='') * 2 ^ 8) then
        Inr (if a \<le> b then 1 else 0)
      else if opc = xor (schar (CHR ''='')) (schar (CHR ''='') * 2 ^ 8) then
        Inr (if a = b then 1 else 0)
      else if opc = xor (schar (CHR ''!'')) (schar (CHR ''='') * 2 ^ 8) then
        Inr (if a \<noteq> b then 1 else 0)
      else Inr 0)"

definition picolCommandMath :: "picolInterp \<Rightarrow> string list \<Rightarrow> fault + returned" where
  "picolCommandMath i argv =
     (if length argv \<noteq> 3 then Inr (picolArityErr i (argv ! 0))
      else
        (case rd (argv ! 0 @ [NUL]) 0 of
           Inl f \<Rightarrow> Inl f
         | Inr c0 \<Rightarrow>
        (case rd (argv ! 0 @ [NUL]) 1 of
           Inl f \<Rightarrow> Inl f
         | Inr c1 \<Rightarrow>
        (case atoi (argv ! 1) of
           Inl f \<Rightarrow> Inl f
         | Inr a \<Rightarrow>
        (case atoi (argv ! 2) of
           Inl f \<Rightarrow> Inl f
         | Inr b \<Rightarrow>
        (case mathop (xor (schar c0) (schar c1 * 2 ^ 8)) a b of
           Inl f \<Rightarrow> Inl f
         | Inr c \<Rightarrow>
             Inr (PICOL_OK,
                  picolSetResult i (snprintf_d ((sizeof_int * CHAR_BIT) div 3) c))))))))"

definition picolCommandSet :: "picolInterp \<Rightarrow> string list \<Rightarrow> fault + returned" where
  "picolCommandSet i argv =
     (if length argv \<noteq> 3 then Inr (picolArityErr i (argv ! 0))
      else
        (case picolSetVar i (argv ! 1) (argv ! 2) of
           Inl f \<Rightarrow> Inl f
         | Inr i' \<Rightarrow> Inr (PICOL_OK, picolSetResult i' (argv ! 2))))"

definition picolCommandPuts :: "picolInterp \<Rightarrow> string list \<Rightarrow> fault + returned" where
  "picolCommandPuts i argv =
     (if length argv \<noteq> 2 then Inr (picolArityErr i (argv ! 0))
      else Inr (PICOL_OK, i\<lparr>stdout := stdout i @ [argv ! 1]\<rparr>))"

definition picolCommandRetCodes :: "picolInterp \<Rightarrow> string list \<Rightarrow> fault + returned" where
  "picolCommandRetCodes i argv =
     (if length argv \<noteq> 1 then Inr (picolArityErr i (argv ! 0))
      else if argv ! 0 = ''break'' then Inr (PICOL_BREAK, i)
      else if argv ! 0 = ''continue'' then Inr (PICOL_CONTINUE, i)
      else Inr (PICOL_OK, i))"

definition picolCommandProc :: "picolInterp \<Rightarrow> string list \<Rightarrow> fault + returned" where
  "picolCommandProc i argv =
     (if length argv \<noteq> 4 then Inr (picolArityErr i (argv ! 0))
      else Inr (picolRegisterCommand i (argv ! 1) CommandCallProc (Some (argv ! 2, argv ! 3))))"

definition picolCommandReturn :: "picolInterp \<Rightarrow> string list \<Rightarrow> fault + returned" where
  "picolCommandReturn i argv =
     (if length argv \<noteq> 1 \<and> length argv \<noteq> 2 then Inr (picolArityErr i (argv ! 0))
      else Inr (PICOL_RETURN, picolSetResult i (if length argv = 2 then argv ! 1 else [])))"

definition picolDropCallFrame :: "picolInterp \<Rightarrow> fault + picolInterp" where
  "picolDropCallFrame i =
     (case callframe i of
        [] \<Rightarrow> Inl NullDeref
      | cf # parents \<Rightarrow> Inr (i\<lparr>callframe := parents\<rparr>))"

subsection \<open>The commands that evaluate a script\<close>

text \<open>
  \<^verbatim>\<open>picolEval\<close> and the handlers that call it are mutually recursive in C. Here a
  handler takes the evaluator it calls as its argument \<open>ev\<close>, and \<open>picolEval\<close> below
  hands it the evaluator with the fuel that is left.
\<close>

definition picolCommandIf ::
  "(picolInterp \<Rightarrow> string \<Rightarrow> outcome) \<Rightarrow> picolInterp \<Rightarrow> string list \<Rightarrow> outcome" where
  "picolCommandIf ev i argv =
     (if length argv \<noteq> 3 \<and> length argv \<noteq> 5 then Some (Inr (picolArityErr i (argv ! 0)))
      else
        (case ev i (argv ! 1) of
           None \<Rightarrow> None
         | Some (Inl u) \<Rightarrow> Some (Inl u)
         | Some (Inr (retcode, i1)) \<Rightarrow>
             if retcode \<noteq> PICOL_OK then Some (Inr (retcode, i1))
             else
               (case atoi (result i1) of
                  Inl f \<Rightarrow> Some (Inl (Fault f))
                | Inr v \<Rightarrow>
                    if v \<noteq> 0 then ev i1 (argv ! 2)
                    else if length argv = 5 then ev i1 (argv ! 4)
                    else Some (Inr (PICOL_OK, i1)))))"

text \<open>
  The \<^verbatim>\<open>for\<close> of \<^verbatim>\<open>picolCommandWhile\<close>; one unit of fuel per round. The last test of
  its body, \<^verbatim>\<open>else if (retcode != PICOL_BREAK) return retcode;\<close>, has no \<^verbatim>\<open>else\<close>: with
  \<^verbatim>\<open>PICOL_BREAK\<close> the body of the \<^verbatim>\<open>for\<close> is done and the \<^verbatim>\<open>for\<close> goes round again.
\<close>

fun picolCommandWhile ::
  "nat \<Rightarrow> (picolInterp \<Rightarrow> string \<Rightarrow> outcome) \<Rightarrow> picolInterp \<Rightarrow> string list \<Rightarrow> outcome" where
  "picolCommandWhile 0 ev i argv =
     (if length argv = 3 then None else Some (Inr (picolArityErr i (argv ! 0))))"
| "picolCommandWhile (Suc k) ev i argv =
     (if length argv = 3 then
        (case ev i (argv ! 1) of
           None \<Rightarrow> None
         | Some (Inl u) \<Rightarrow> Some (Inl u)
         | Some (Inr (retcode, i1)) \<Rightarrow>
             if retcode \<noteq> PICOL_OK then Some (Inr (retcode, i1))
             else
               (case atoi (result i1) of
                  Inl f \<Rightarrow> Some (Inl (Fault f))
                | Inr v \<Rightarrow>
                    if v = 0 then Some (Inr (PICOL_OK, i1))
                    else
                      (case ev i1 (argv ! 2) of
                         None \<Rightarrow> None
                       | Some (Inl u) \<Rightarrow> Some (Inl u)
                       | Some (Inr (retcode2, i2)) \<Rightarrow>
                           if retcode2 = PICOL_CONTINUE then picolCommandWhile k ev i2 argv
                           else if retcode2 = PICOL_OK then picolCommandWhile k ev i2 argv
                           else if retcode2 \<noteq> PICOL_BREAK then Some (Inr (retcode2, i2))
                           else picolCommandWhile k ev i2 argv)))
      else Some (Inr (picolArityErr i (argv ! 0))))"

text \<open>
  The loop of \<^verbatim>\<open>picolCommandCallProc\<close> over the formal arguments: \<open>s\<close> is the rest of
  the argument list at \<^verbatim>\<open>s\<close>. The result is the interpreter, \<^verbatim>\<open>arity\<close>, and whether the
  loop left by \<^verbatim>\<open>goto arityerr\<close>.
\<close>

function procArgs ::
  "picolInterp \<Rightarrow> string \<Rightarrow> string list \<Rightarrow> int \<Rightarrow> fault + (bool \<times> picolInterp \<times> int)" where
  "procArgs i s argv arity =
     (if dropWhile (\<lambda>c. c \<noteq> CHR '' '') s \<noteq> [] \<and> takeWhile (\<lambda>c. c \<noteq> CHR '' '') s = [] then
        procArgs i (tl (dropWhile (\<lambda>c. c \<noteq> CHR '' '') s)) argv arity
      else if takeWhile (\<lambda>c. c \<noteq> CHR '' '') s = [] then Inr (False, i, arity)
      else if arity + 1 > int (length argv) - 1 then Inr (True, i, arity + 1)
      else
        (case picolSetVar i (takeWhile (\<lambda>c. c \<noteq> CHR '' '') s) (argv ! nat (arity + 1)) of
           Inl f \<Rightarrow> Inl f
         | Inr i' \<Rightarrow>
             if dropWhile (\<lambda>c. c \<noteq> CHR '' '') s = [] then Inr (False, i', arity + 1)
             else procArgs i' (tl (dropWhile (\<lambda>c. c \<noteq> CHR '' '') s)) argv (arity + 1)))"
  by pat_completeness auto
termination
proof (relation "measure (\<lambda>(i, s, argv, arity). length s)", goal_cases)
  case 1
  show ?case by simp
next
  case (2 i s argv arity)
  have "length (dropWhile (\<lambda>c. c \<noteq> CHR '' '') s) \<le> length s" by (rule length_dropWhile_le)
  with 2 show ?case by (cases "dropWhile (\<lambda>c. c \<noteq> CHR '' '') s") auto
next
  case (3 i s argv arity i')
  have "length (dropWhile (\<lambda>c. c \<noteq> CHR '' '') s) \<le> length s" by (rule length_dropWhile_le)
  with 3 show ?case by (cases "dropWhile (\<lambda>c. c \<noteq> CHR '' '') s") auto
qed

declare procArgs.simps [simp del]

definition picolCommandCallProc ::
  "(picolInterp \<Rightarrow> string \<Rightarrow> outcome) \<Rightarrow> picolInterp \<Rightarrow> string list \<Rightarrow>
   (string \<times> string) option \<Rightarrow> outcome" where
  "picolCommandCallProc ev i argv pd =
     (case pd of
        None \<Rightarrow> Some (Inl (Fault NullDeref))
      | Some (alist, body) \<Rightarrow>
          (case procArgs (i\<lparr>callframe := [] # callframe i\<rparr>) alist argv 0 of
             Inl f \<Rightarrow> Some (Inl (Fault f))
           | Inr (arityerr, i1, arity) \<Rightarrow>
               if arityerr \<or> arity \<noteq> int (length argv) - 1 then
                 (case picolDropCallFrame i1 of
                    Inl f \<Rightarrow> Some (Inl (Fault f))
                  | Inr i2 \<Rightarrow>
                      Some (Inr (picolErr i2
                        (''Proc '' @ quoted (argv ! 0) @ '' called with wrong arg num''))))
               else
                 (case ev i1 body of
                    None \<Rightarrow> None
                  | Some (Inl u) \<Rightarrow> Some (Inl u)
                  | Some (Inr (errcode, i2)) \<Rightarrow>
                      (case picolDropCallFrame i2 of
                         Inl f \<Rightarrow> Some (Inl (Fault f))
                       | Inr i3 \<Rightarrow>
                           Some (Inr (if errcode = PICOL_RETURN then PICOL_OK else errcode, i3))))))"

text \<open>A handler that calls no evaluator, seen from the evaluator.\<close>

definition returns :: "fault + returned \<Rightarrow> outcome" where
  "returns r = (case r of Inl f \<Rightarrow> Some (Inl (Fault f)) | Inr x \<Rightarrow> Some (Inr x))"

text \<open>\<^verbatim>\<open>c->func(i, argc, argv, c->privdata)\<close>.\<close>

definition callCmd ::
  "nat \<Rightarrow> (picolInterp \<Rightarrow> string \<Rightarrow> outcome) \<Rightarrow> picolCmd \<Rightarrow> picolInterp \<Rightarrow> string list \<Rightarrow>
   outcome" where
  "callCmd k ev c i argv =
     (case c_func c of
        CommandMath \<Rightarrow> returns (picolCommandMath i argv)
      | CommandSet \<Rightarrow> returns (picolCommandSet i argv)
      | CommandPuts \<Rightarrow> returns (picolCommandPuts i argv)
      | CommandIf \<Rightarrow> picolCommandIf ev i argv
      | CommandWhile \<Rightarrow> picolCommandWhile k ev i argv
      | CommandRetCodes \<Rightarrow> returns (picolCommandRetCodes i argv)
      | CommandCallProc \<Rightarrow> picolCommandCallProc ev i argv (c_privdata c)
      | CommandProc \<Rightarrow> returns (picolCommandProc i argv)
      | CommandReturn \<Rightarrow> returns (picolCommandReturn i argv))"

subsection \<open>The evaluator\<close>

text \<open>
  The token just recognised, copied out of the text:
  \<^verbatim>\<open>tlen = p.end-p.start+1; if (tlen < 0) tlen = 0; memcpy(malloc(tlen+1), p.start, tlen)\<close>.
\<close>

definition token :: "picolParser \<Rightarrow> fault + string" where
  "token p =
     (if p_start p + nat (p_end p - int (p_start p) + 1) \<le> Suc (length (p_text p)) then
        Inr (take (nat (p_end p - int (p_start p) + 1)) (drop (p_start p) (p_text p @ [NUL])))
      else Inl OutOfBounds)"

text \<open>
  What the evaluator does with a token of kind \<^verbatim>\<open>PT_VAR\<close>, \<^verbatim>\<open>PT_CMD\<close>, \<^verbatim>\<open>PT_ESC\<close> or
  \<^verbatim>\<open>PT_STR\<close>: either it leaves the loop (\<open>Leave\<close>, the \<^verbatim>\<open>break\<close>s), or it has the buffer
  \<^verbatim>\<open>t\<close> and \<^verbatim>\<open>tlen\<close> of the word to add (\<open>Word\<close>).
\<close>

datatype subst = Leave returned | Word picolInterp "char list" int

definition substToken ::
  "(picolInterp \<Rightarrow> string \<Rightarrow> outcome) \<Rightarrow> picolInterp \<Rightarrow> toktype \<Rightarrow> string \<Rightarrow>
   (ub + subst) option" where
  "substToken ev i ty t =
     (if ty = PT_VAR then
        (case picolGetVar i t of
           Inl f \<Rightarrow> Some (Inl (Fault f))
         | Inr None \<Rightarrow> Some (Inr (Leave (picolErr i (''No such variable '' @ quoted t))))
         | Inr (Some v) \<Rightarrow> Some (Inr (Word i (snd v @ [NUL]) (int (length (snd v))))))
      else if ty = PT_CMD then
        (case ev i t of
           None \<Rightarrow> None
         | Some (Inl u) \<Rightarrow> Some (Inl u)
         | Some (Inr (retcode, i1)) \<Rightarrow>
             if retcode \<noteq> PICOL_OK then Some (Inr (Leave (retcode, i1)))
             else Some (Inr (Word i1 (result i1 @ [NUL]) (int (length (result i1))))))
      else if ty = PT_ESC then
        (case picolEscape (t @ [NUL]) (int (length t)) of
           Inl f \<Rightarrow> Some (Inl (Fault f))
         | Inr (b, n) \<Rightarrow> Some (Inr (Word i b n)))
      else Some (Inr (Word i (t @ [NUL]) (int (length t)))))"

text \<open>
  The new token becomes a new argument, or is appended to the last one. \<^verbatim>\<open>argv[argc-1]\<close>
  of an empty \<^verbatim>\<open>argv\<close> is \<open>EmptyArgv\<close>.
\<close>

definition addWord :: "toktype \<Rightarrow> string list \<Rightarrow> char list \<Rightarrow> int \<Rightarrow> ub + string list" where
  "addWord prevtype argv t tlen =
     (if prevtype = PT_SEP \<or> prevtype = PT_EOL then Inr (argv @ [cstr t])
      else if argv = [] then Inl EmptyArgv
      else if 0 \<le> tlen \<and> nat tlen \<le> length t then
        Inr (butlast argv @ [cstr (last argv @ take (nat tlen) t)])
      else Inl (Fault OutOfBounds))"

text \<open>
  The \<^verbatim>\<open>for\<close> of \<^verbatim>\<open>picolEval\<close>, one unit of fuel per token. \<^verbatim>\<open>retcode\<close> is \<^verbatim>\<open>PICOL_OK\<close>
  whenever the loop goes on, so \<^verbatim>\<open>PT_EOF\<close> returns \<^verbatim>\<open>PICOL_OK\<close>.
\<close>

fun evalLoop ::
  "nat \<Rightarrow> (picolInterp \<Rightarrow> string \<Rightarrow> outcome) \<Rightarrow> picolInterp \<Rightarrow> picolParser \<Rightarrow> toktype \<Rightarrow>
   string list \<Rightarrow> outcome" where
  "evalLoop 0 ev i p prevtype argv = None"
| "evalLoop (Suc k) ev i p prevtype argv =
     (case picolGetToken p of
        Inl f \<Rightarrow> Some (Inl (Fault f))
      | Inr q \<Rightarrow>
          if p_type q = PT_EOF then Some (Inr (PICOL_OK, i))
          else
            (case token q of
               Inl f \<Rightarrow> Some (Inl (Fault f))
             | Inr t \<Rightarrow>
                 if p_type q = PT_SEP then evalLoop k ev i q (p_type q) argv
                 else if p_type q = PT_EOL then
                   (if argv \<noteq> [] then
                      (case picolGetCommand i (argv ! 0) of
                         None \<Rightarrow>
                           Some (Inr (picolErr i (''No such command '' @ quoted (argv ! 0))))
                       | Some c \<Rightarrow>
                           (case callCmd k ev c i argv of
                              None \<Rightarrow> None
                            | Some (Inl u) \<Rightarrow> Some (Inl u)
                            | Some (Inr (retcode, i1)) \<Rightarrow>
                                if retcode \<noteq> PICOL_OK then Some (Inr (retcode, i1))
                                else evalLoop k ev i1 q (p_type q) []))
                    else evalLoop k ev i q (p_type q) [])
                 else
                   (case substToken ev i (p_type q) t of
                      None \<Rightarrow> None
                    | Some (Inl u) \<Rightarrow> Some (Inl u)
                    | Some (Inr (Leave r)) \<Rightarrow> Some (Inr r)
                    | Some (Inr (Word i1 b tlen)) \<Rightarrow>
                        (case addWord prevtype argv b tlen of
                           Inl u \<Rightarrow> Some (Inl u)
                         | Inr argv1 \<Rightarrow> evalLoop k ev i1 q (p_type q) argv1))))"

primrec picolEval :: "nat \<Rightarrow> picolInterp \<Rightarrow> string \<Rightarrow> outcome" where
  "picolEval 0 i s = None"
| "picolEval (Suc n) i s =
     evalLoop n (picolEval n) (picolSetResult i []) (picolInitParser s)
       (p_type (picolInitParser s)) []"

definition picolRegisterCoreCommands :: "picolInterp \<Rightarrow> picolInterp" where
  "picolRegisterCoreCommands i =
     foldl (\<lambda>i (name, f). snd (picolRegisterCommand i name f None)) i
       [(''+'', CommandMath), (''-'', CommandMath), (''*'', CommandMath), (''/'', CommandMath),
        (''>'', CommandMath), (''>='', CommandMath), (''<'', CommandMath), (''<='', CommandMath),
        (''=='', CommandMath), (''!='', CommandMath),
        (''set'', CommandSet), (''puts'', CommandPuts), (''if'', CommandIf),
        (''while'', CommandWhile), (''break'', CommandRetCodes),
        (''continue'', CommandRetCodes), (''proc'', CommandProc),
        (''return'', CommandReturn)]"

text \<open>The interpreter of \<^verbatim>\<open>main\<close>, before any script: the fresh interpreter.\<close>

definition fresh :: picolInterp where
  "fresh = picolRegisterCoreCommands picolInitInterp"

section \<open>Properties\<close>

subsection \<open>The escape decoder\<close>

text \<open>
  C2. The specification has \<^verbatim>\<open>\xHH\<close> replaced by the one byte \<open>HH\<close>, the other bytes
  copied, and the length shortened to match: three less. \<^verbatim>\<open>picolEscape\<close> takes two
  from \<^verbatim>\<open>n\<close> for \<^verbatim>\<open>\x\<close> and two more for the digits, four for one byte written, where
  \<^verbatim>\<open>\n\<close>, \<^verbatim>\<open>\r\<close> and \<^verbatim>\<open>\t\<close> take one for two bytes read and one written. So the
  terminator lands one byte early: the word \<^verbatim>\<open>\x41\<close> decodes to the empty word of length
  0 instead of \<^verbatim>\<open>A\<close>, and \<^verbatim>\<open>ab\x41cd\<close> to \<^verbatim>\<open>abAc\<close> of length 4 instead of \<^verbatim>\<open>abAcd\<close>.
\<close>

theorem picolEscape_hex_pair_cuts_last_byte:
  "picolEscape (CHR 0x5C # ''x41'' @ [NUL]) 4 = Inr (NUL # ''x41'' @ [NUL], 0) \<and>
   picolEscape (''ab'' @ CHR 0x5C # ''x41cd'' @ [NUL]) 8 = Inr (''abAc'' @ NUL # ''1cd'' @ [NUL], 4)"
  by code_simp

text \<open>
  C3. The specification has \<^verbatim>\<open>\x\<close> with a single hex digit decode to that digit's
  value. \<^verbatim>\<open>picolEscape\<close> stores \<^verbatim>\<open>toxdigit(isalpha(*s))\<close>, not \<^verbatim>\<open>toxdigit(*s)\<close>:
  for the digit \<^verbatim>\<open>5\<close>, \<^verbatim>\<open>isalpha\<close> is 0 and \<^verbatim>\<open>toxdigit(0)\<close> is \<open>0 - 48\<close>, the byte
  \<open>0xD0\<close>. The length is one short here too, which cuts the \<^verbatim>\<open>z\<close> of \<^verbatim>\<open>\x5z\<close>.
\<close>

theorem picolEscape_hex_single_is_not_the_nibble:
  "picolEscape (CHR 0x5C # ''x5z'' @ [NUL]) 4 = Inr (CHR 0xD0 # NUL # ''5z'' @ [NUL], 1) \<and>
   toxdigit (ichar (CHR ''5'')) = 5 \<and> toxdigit (isalpha (ichar (CHR ''5''))) = - 48"
  by code_simp

subsection \<open>The math commands\<close>

text \<open>
  C4. The specification has the result of a math command be the decimal representation
  of the computed value. \<^verbatim>\<open>picolCommandMath\<close> prints into
  \<^verbatim>\<open>char buf[(sizeof(int)*CHAR_BIT)/3]\<close>, ten bytes, so \<^verbatim>\<open>snprintf\<close> keeps nine
  characters: \<^verbatim>\<open>+ 1000000000 0\<close> has the result \<^verbatim>\<open>100000000\<close>, and \<^verbatim>\<open>- 0 100000000\<close>
  the result \<^verbatim>\<open>-10000000\<close>.
\<close>

theorem picolCommandMath_truncates_ten_digits:
  "picolCommandMath i [''+'', ''1000000000'', ''0''] =
     Inr (PICOL_OK, i\<lparr>result := ''100000000''\<rparr>) \<and>
   picolCommandMath i [''-'', ''0'', ''100000000''] =
     Inr (PICOL_OK, i\<lparr>result := ''-10000000''\<rparr>) \<and>
   show_int 1000000000 = ''1000000000'' \<and> show_int (- 100000000) = ''-100000000''"
  by code_simp

subsection \<open>Variable lookup\<close>

lemma find_name_None: "find (\<lambda>v. fst v = name) cf = None \<longleftrightarrow> name \<notin> fst ` set cf"
  by (induction cf) auto

lemma find_name_Some: "find (\<lambda>v. fst v = name) cf = Some v \<Longrightarrow> v \<in> set cf \<and> fst v = name"
  by (induction cf) (auto split: if_splits)

text \<open>
  C8. \<^verbatim>\<open>picolGetVar\<close> searches the current frame only: with the current frame \<open>cf\<close>
  on top of any parent frames, it finds nothing exactly when \<open>cf\<close> has no variable of
  that name, what it finds is a variable of \<open>cf\<close> with that name, and the parent
  frames make no difference to the result.
\<close>

theorem picolGetVar_current_frame_only:
  assumes "callframe i = cf # parents"
  shows "(picolGetVar i name = Inr None \<longleftrightarrow> name \<notin> fst ` set cf) \<and>
         (\<forall>v. picolGetVar i name = Inr (Some v) \<longrightarrow> v \<in> set cf \<and> fst v = name) \<and>
         (\<exists>r. picolGetVar i name = Inr r) \<and>
         (\<forall>others. picolGetVar (i\<lparr>callframe := cf # others\<rparr>) name = picolGetVar i name)"
  using assms by (auto simp: picolGetVar_def find_name_None dest: find_name_Some)

theorem picolGetVar_current_frame_only_witness:
  "callframe (fresh\<lparr>callframe := [[(''y'', ''2'')], [(''x'', ''1'')]]\<rparr>) =
     [(''y'', ''2'')] # [[(''x'', ''1'')]] \<and>
   picolGetVar (fresh\<lparr>callframe := [[(''y'', ''2'')], [(''x'', ''1'')]]\<rparr>) ''x'' = Inr None \<and>
   picolGetVar (fresh\<lparr>callframe := [[(''y'', ''2'')], [(''x'', ''1'')]]\<rparr>) ''y'' =
     Inr (Some (''y'', ''2''))"
proof -
  let ?i = "fresh\<lparr>callframe := [[(''y'', ''2'')], [(''x'', ''1'')]]\<rparr>"
  have frames: "callframe ?i = [(''y'', ''2'')] # [[(''x'', ''1'')]]" by simp
  have "picolGetVar ?i ''x'' = Inr None"
    using picolGetVar_current_frame_only [OF frames, of "''x''"] by simp
  moreover have "picolGetVar ?i ''y'' = Inr (Some (''y'', ''2''))"
    by (simp add: picolGetVar_def)
  ultimately show ?thesis using frames by simp
qed

subsection \<open>The parser at the end of the text\<close>

text \<open>
  C9. The specification has \<^verbatim>\<open>picolGetToken\<close> succeed on every text. The loop of
  \<^verbatim>\<open>picolParseSep\<close> tests no length and goes on at every byte that is not
  \<^verbatim>\<open>isgraph\<close>, the terminating NUL included: on a text that ends in white space, a
  newline or \<^verbatim>\<open>;\<close> it reads the byte after the terminator. The other scanning loops
  of the parser test \<^verbatim>\<open>p->len\<close> or stop at the NUL.
\<close>

theorem picolGetToken_reads_past_the_text:
  "picolGetToken (picolInitParser '' '') = Inl OutOfBounds \<and>
   picolEval 9 fresh ''set x 5 '' = Some (Inl (Fault OutOfBounds))"
  by code_simp

subsection \<open>An undefined variable\<close>

text \<open>
  C7. When the token the evaluator gets is a \<^verbatim>\<open>$name\<close> and the current frame has no
  variable of that name, the loop of \<^verbatim>\<open>picolEval\<close> returns \<^verbatim>\<open>PICOL_ERR\<close> at once: the
  interpreter is the one it had at the token, but for the result
  \<^verbatim>\<open>No such variable 'name'\<close>, so the command of that line was not called. On the fresh
  interpreter \<^verbatim>\<open>puts $undef\<close> returns \<^verbatim>\<open>PICOL_ERR\<close> with the result
  \<^verbatim>\<open>No such variable 'undef'\<close>, and nothing was written. The apostrophes of the text
  are the bytes \<open>0x27\<close>, written out in the statement.
\<close>

theorem eval_undefined_variable:
  "(picolGetToken p = Inr q \<and> p_type q = PT_VAR \<and> token q = Inr name \<and>
    picolGetVar i name = Inr None \<longrightarrow>
      evalLoop (Suc k) ev i p prevtype argv =
        Some (Inr (PICOL_ERR, i\<lparr>result := ''No such variable '' @ [CHR 0x27] @ name @ [CHR 0x27]\<rparr>))) \<and>
   picolEval 4 fresh ''puts $undef'' =
     Some (Inr (PICOL_ERR, fresh\<lparr>result := ''No such variable '' @ [CHR 0x27] @ ''undef'' @ [CHR 0x27]\<rparr>)) \<and>
   stdout fresh = []"
proof (intro conjI impI)
  assume "picolGetToken p = Inr q \<and> p_type q = PT_VAR \<and> token q = Inr name \<and>
    picolGetVar i name = Inr None"
  then show "evalLoop (Suc k) ev i p prevtype argv =
        Some (Inr (PICOL_ERR, i\<lparr>result := ''No such variable '' @ [CHR 0x27] @ name @ [CHR 0x27]\<rparr>))"
    by (simp add: substToken_def picolErr_def quoted_def)
next
  show "picolEval 4 fresh ''puts $undef'' =
     Some (Inr (PICOL_ERR, fresh\<lparr>result := ''No such variable '' @ [CHR 0x27] @ ''undef'' @ [CHR 0x27]\<rparr>))"
    by code_simp
next
  show "stdout fresh = []" by code_simp
qed

theorem eval_undefined_variable_witness:
  "picolGetToken \<lparr>p_text = ''puts $undef'', p_pos = 5, p_start = 4, p_end = 4, p_len = 6,
                   p_type = PT_SEP, p_insidequote = False\<rparr> =
     Inr \<lparr>p_text = ''puts $undef'', p_pos = 11, p_start = 6, p_end = 10, p_len = 0,
          p_type = PT_VAR, p_insidequote = False\<rparr> \<and>
   token \<lparr>p_text = ''puts $undef'', p_pos = 11, p_start = 6, p_end = 10, p_len = 0,
          p_type = PT_VAR, p_insidequote = False\<rparr> = Inr ''undef'' \<and>
   picolGetVar fresh ''undef'' = Inr None \<and>
   evalLoop (Suc 0) (picolEval 0) fresh
     \<lparr>p_text = ''puts $undef'', p_pos = 5, p_start = 4, p_end = 4, p_len = 6,
      p_type = PT_SEP, p_insidequote = False\<rparr> PT_SEP [''puts''] =
     Some (Inr (PICOL_ERR, fresh\<lparr>result := ''No such variable '' @ [CHR 0x27] @ ''undef'' @ [CHR 0x27]\<rparr>))"
proof -
  let ?p = "\<lparr>p_text = ''puts $undef'', p_pos = 5, p_start = 4, p_end = 4, p_len = 6,
             p_type = PT_SEP, p_insidequote = False\<rparr>"
  let ?q = "\<lparr>p_text = ''puts $undef'', p_pos = 11, p_start = 6, p_end = 10, p_len = 0,
             p_type = PT_VAR, p_insidequote = False\<rparr>"
  have tok: "picolGetToken ?p = Inr ?q" by code_simp
  have name: "token ?q = Inr ''undef''" by code_simp
  have var: "picolGetVar fresh ''undef'' = Inr None" by code_simp
  have "evalLoop (Suc 0) (picolEval 0) fresh ?p PT_SEP [''puts''] =
     Some (Inr (PICOL_ERR, fresh\<lparr>result := ''No such variable '' @ [CHR 0x27] @ ''undef'' @ [CHR 0x27]\<rparr>))"
    using eval_undefined_variable [of ?p ?q "''undef''" fresh 0 "picolEval 0" PT_SEP "[''puts'']"]
      tok name var by simp
  with tok name var show ?thesis by simp
qed

subsection \<open>Interpolation never meets an empty argument vector\<close>

text \<open>
  The handlers and the token step hand on an \<open>EmptyArgv\<close> only from the evaluator they
  call; \<open>addWord\<close> is where it comes from, and only with a previous token that is
  neither a separator nor an end of line and an empty \<^verbatim>\<open>argv\<close>.
\<close>

lemma returns_no_EmptyArgv: "returns r \<noteq> Some (Inl EmptyArgv)"
  by (simp add: returns_def split: sum.splits)

lemma picolCommandIf_no_EmptyArgv:
  assumes "\<And>i s. ev i s \<noteq> Some (Inl EmptyArgv)"
  shows "picolCommandIf ev i argv \<noteq> Some (Inl EmptyArgv)"
  using assms by (auto simp: picolCommandIf_def split: option.splits sum.splits)

lemma picolCommandWhile_no_EmptyArgv:
  assumes "\<And>i s. ev i s \<noteq> Some (Inl EmptyArgv)"
  shows "picolCommandWhile k ev i argv \<noteq> Some (Inl EmptyArgv)"
proof (induction k arbitrary: i)
  case 0
  show ?case by simp
next
  case (Suc k)
  show ?case using assms Suc.IH
    by (auto split: option.splits sum.splits)
qed

lemma picolCommandCallProc_no_EmptyArgv:
  assumes "\<And>i s. ev i s \<noteq> Some (Inl EmptyArgv)"
  shows "picolCommandCallProc ev i argv pd \<noteq> Some (Inl EmptyArgv)"
  using assms by (auto simp: picolCommandCallProc_def split: option.splits sum.splits)

lemma callCmd_no_EmptyArgv:
  assumes "\<And>i s. ev i s \<noteq> Some (Inl EmptyArgv)"
  shows "callCmd k ev c i argv \<noteq> Some (Inl EmptyArgv)"
  using assms
  by (simp add: callCmd_def returns_no_EmptyArgv picolCommandIf_no_EmptyArgv
      picolCommandWhile_no_EmptyArgv picolCommandCallProc_no_EmptyArgv split: picolCmdFunc.splits)

lemma substToken_no_EmptyArgv:
  assumes "\<And>i s. ev i s \<noteq> Some (Inl EmptyArgv)"
  shows "substToken ev i ty t \<noteq> Some (Inl EmptyArgv)"
  using assms by (auto simp: substToken_def split: option.splits sum.splits)

lemma addWord_EmptyArgv:
  "addWord prevtype argv b tlen = Inl EmptyArgv \<longleftrightarrow>
     prevtype \<noteq> PT_SEP \<and> prevtype \<noteq> PT_EOL \<and> argv = []"
  by (simp add: addWord_def)

lemma addWord_nonempty: "addWord prevtype argv b tlen = Inr argv1 \<Longrightarrow> argv1 \<noteq> []"
  by (auto simp: addWord_def split: if_splits)

lemma evalLoop_no_EmptyArgv:
  assumes ev: "\<And>i s. ev i s \<noteq> Some (Inl EmptyArgv)"
  shows "prevtype = PT_SEP \<or> prevtype = PT_EOL \<or> argv \<noteq> [] \<Longrightarrow>
         evalLoop k ev i p prevtype argv \<noteq> Some (Inl EmptyArgv)"
proof (induction k arbitrary: i p prevtype argv)
  case 0
  show ?case by simp
next
  case (Suc k)
  show ?case
  proof (cases "picolGetToken p")
    case (Inl f)
    then show ?thesis by simp
  next
    case (Inr q)
    show ?thesis
    proof (cases "token q")
      case (Inl f)
      with Inr show ?thesis by simp
    next
      case tok: (Inr t)
      consider (eof) "p_type q = PT_EOF" | (sep) "p_type q = PT_SEP" | (eol) "p_type q = PT_EOL"
        | (word) "p_type q \<noteq> PT_EOF" "p_type q \<noteq> PT_SEP" "p_type q \<noteq> PT_EOL"
        by blast
      then show ?thesis
      proof cases
        case eof
        with Inr show ?thesis by simp
      next
        case sep
        with Inr tok show ?thesis using Suc.IH [of PT_SEP argv i q] by simp
      next
        case eol
        have next_cmd: "evalLoop k ev j q PT_EOL [] \<noteq> Some (Inl EmptyArgv)" for j
          using Suc.IH [of PT_EOL "[]" j q] by simp
        from Inr tok eol show ?thesis
          using next_cmd callCmd_no_EmptyArgv [OF ev]
          by (auto simp: picolErr_def split: option.splits sum.splits)
      next
        case word
        have go_on: "evalLoop k ev j q (p_type q) argv1 \<noteq> Some (Inl EmptyArgv)"
          if "addWord prevtype argv b tlen = Inr argv1" for j argv1 b tlen
          using Suc.IH [of "p_type q" argv1 j q] addWord_nonempty [OF that] by simp
        have no_empty: "addWord prevtype argv b tlen \<noteq> Inl EmptyArgv" for b tlen
          using Suc.prems by (auto simp: addWord_EmptyArgv)
        from Inr tok word show ?thesis
          using go_on no_empty substToken_no_EmptyArgv [OF ev]
          by (auto split: option.splits sum.splits subst.splits)
      qed
    qed
  qed
qed


text \<open>
  C10. The loop of \<^verbatim>\<open>picolEval\<close> starts with the previous kind \<^verbatim>\<open>PT_EOL\<close> and keeps
  this: the previous kind is \<^verbatim>\<open>PT_SEP\<close> or \<^verbatim>\<open>PT_EOL\<close>, or \<^verbatim>\<open>argv\<close> has a word
  (\<open>evalLoop_no_EmptyArgv\<close>). So whenever a token is appended to the last word there is
  one: no evaluation, whatever the interpreter, the text and the fuel, ends in
  \<open>EmptyArgv\<close>, neither its own nor one of a script it evaluates.
\<close>

theorem picolEval_never_appends_to_empty_argv:
  "picolEval n i s \<noteq> Some (Inl EmptyArgv)"
proof (induction n arbitrary: i s)
  case 0
  show ?case by simp
next
  case (Suc n)
  show ?case
    using evalLoop_no_EmptyArgv [of "picolEval n" PT_EOL "[]" n] Suc.IH
    by (simp add: picolInitParser_def)
qed

subsection \<open>More fuel, same result\<close>

text \<open>
  What an evaluation returns with some fuel it returns with any more: the results
  below, computed with one amount of fuel, are the results of the code.
\<close>

lemma picolCommandIf_mono:
  assumes le: "\<And>i s r. ev i s = Some r \<Longrightarrow> ev' i s = Some r"
    and run: "picolCommandIf ev i argv = Some r"
  shows "picolCommandIf ev' i argv = Some r"
proof (cases "length argv \<noteq> 3 \<and> length argv \<noteq> 5")
  case True
  with run show ?thesis by (simp add: picolCommandIf_def)
next
  case False
  with run obtain x where x: "ev i (argv ! 1) = Some x"
    by (auto simp: picolCommandIf_def split: option.splits)
  then have x': "ev' i (argv ! 1) = Some x" by (rule le)
  from run False x x' show ?thesis
    by (auto simp: picolCommandIf_def split: sum.splits if_splits intro: le)
qed

lemma picolCommandWhile_mono:
  assumes le: "\<And>i s r. ev i s = Some r \<Longrightarrow> ev' i s = Some r"
  shows "picolCommandWhile k ev i argv = Some r \<Longrightarrow> k \<le> k' \<Longrightarrow>
         picolCommandWhile k' ev' i argv = Some r"
proof (induction k arbitrary: k' i)
  case 0
  then show ?case by (cases k') (auto split: if_splits)
next
  case (Suc k)
  from Suc.prems(2) obtain m where k': "k' = Suc m" and m: "k \<le> m" by (cases k') auto
  show ?case
  proof (cases "length argv = 3")
    case False
    with Suc.prems(1) k' show ?thesis by simp
  next
    case True
    with Suc.prems(1) obtain x where x: "ev i (argv ! 1) = Some x"
      by (auto split: option.splits)
    then have x': "ev' i (argv ! 1) = Some x" by (rule le)
    show ?thesis
    proof (cases x)
      case (Inl u)
      with Suc.prems(1) True x x' k' show ?thesis by auto
    next
      case (Inr y)
      obtain rc i1 where y: "y = (rc, i1)" by (cases y)
      show ?thesis
      proof (cases "rc \<noteq> PICOL_OK \<or> (\<exists>f. atoi (result i1) = Inl f) \<or> atoi (result i1) = Inr 0")
        case True
        with Suc.prems(1) \<open>length argv = 3\<close> x x' k' Inr y show ?thesis by auto
      next
        case False
        then obtain v where v: "atoi (result i1) = Inr v" "v \<noteq> 0" and ok: "rc = PICOL_OK"
          by (cases "atoi (result i1)") auto
        with Suc.prems(1) \<open>length argv = 3\<close> x Inr y obtain z where z: "ev i1 (argv ! 2) = Some z"
          by (auto split: option.splits)
        then have z': "ev' i1 (argv ! 2) = Some z" by (rule le)
        from Suc.prems(1) \<open>length argv = 3\<close> x x' Inr y v ok z z' k' m show ?thesis
          by (auto split: sum.splits if_splits intro: Suc.IH)
      qed
    qed
  qed
qed

lemma picolCommandCallProc_mono:
  assumes le: "\<And>i s r. ev i s = Some r \<Longrightarrow> ev' i s = Some r"
    and run: "picolCommandCallProc ev i argv pd = Some r"
  shows "picolCommandCallProc ev' i argv pd = Some r"
proof (cases pd)
  case None
  with run show ?thesis by (simp add: picolCommandCallProc_def)
next
  case (Some ab)
  obtain alist body where ab: "ab = (alist, body)" by (cases ab)
  show ?thesis
  proof (cases "procArgs (i\<lparr>callframe := [] # callframe i\<rparr>) alist argv 0")
    case (Inl f)
    with run Some ab show ?thesis by (simp add: picolCommandCallProc_def)
  next
    case (Inr y)
    obtain e i1 arity where y: "y = (e, i1, arity)" by (cases y)
    show ?thesis
    proof (cases "e \<or> arity \<noteq> int (length argv) - 1")
      case True
      with run Some ab Inr y show ?thesis by (auto simp: picolCommandCallProc_def)
    next
      case False
      with run Some ab Inr y obtain z where z: "ev i1 body = Some z"
        by (auto simp: picolCommandCallProc_def split: option.splits)
      then have z': "ev' i1 body = Some z" by (rule le)
      from run Some ab Inr y False z z' show ?thesis
        by (auto simp: picolCommandCallProc_def)
    qed
  qed
qed

lemma callCmd_mono:
  assumes le: "\<And>i s r. ev i s = Some r \<Longrightarrow> ev' i s = Some r"
    and run: "callCmd k ev c i argv = Some r" and k: "k \<le> k'"
  shows "callCmd k' ev' c i argv = Some r"
proof (cases "c_func c")
  case CommandIf
  with run have "picolCommandIf ev i argv = Some r" by (simp add: callCmd_def)
  with le have "picolCommandIf ev' i argv = Some r" by (rule picolCommandIf_mono)
  with CommandIf show ?thesis by (simp add: callCmd_def)
next
  case CommandWhile
  with run have "picolCommandWhile k ev i argv = Some r" by (simp add: callCmd_def)
  with le have "picolCommandWhile k' ev' i argv = Some r" using k
    by (rule picolCommandWhile_mono)
  with CommandWhile show ?thesis by (simp add: callCmd_def)
next
  case CommandCallProc
  with run have "picolCommandCallProc ev i argv (c_privdata c) = Some r"
    by (simp add: callCmd_def)
  with le have "picolCommandCallProc ev' i argv (c_privdata c) = Some r"
    by (rule picolCommandCallProc_mono)
  with CommandCallProc show ?thesis by (simp add: callCmd_def)
qed (use run in \<open>simp_all add: callCmd_def\<close>)

lemma substToken_mono:
  assumes le: "\<And>i s r. ev i s = Some r \<Longrightarrow> ev' i s = Some r"
    and run: "substToken ev i ty t = Some r"
  shows "substToken ev' i ty t = Some r"
proof (cases "ty = PT_CMD")
  case False
  with run show ?thesis by (auto simp: substToken_def split: if_splits)
next
  case True
  with run obtain x where x: "ev i t = Some x"
    by (auto simp: substToken_def split: option.splits)
  then have "ev' i t = Some x" by (rule le)
  with run True x show ?thesis by (auto simp: substToken_def)
qed

lemma evalLoop_mono:
  assumes le: "\<And>i s r. ev i s = Some r \<Longrightarrow> ev' i s = Some r"
  shows "evalLoop k ev i p prevtype argv = Some r \<Longrightarrow> k \<le> k' \<Longrightarrow>
         evalLoop k' ev' i p prevtype argv = Some r"
proof (induction k arbitrary: k' i p prevtype argv)
  case 0
  then show ?case by simp
next
  case (Suc k)
  from Suc.prems(2) obtain m where k': "k' = Suc m" and m: "k \<le> m" by (cases k') auto
  note run = Suc.prems(1)
  have again: "evalLoop m ev' j q ty w = Some r" if "evalLoop k ev j q ty w = Some r" for j q ty w
    using that m by (rule Suc.IH)
  show ?case
  proof (cases "picolGetToken p")
    case (Inl f)
    with run k' show ?thesis by simp
  next
    case (Inr q)
    show ?thesis
    proof (cases "p_type q = PT_EOF")
      case True
      with run k' Inr show ?thesis by simp
    next
      case ne: False
      show ?thesis
      proof (cases "token q")
        case (Inl f)
        with run k' Inr ne show ?thesis by simp
      next
        case t: (Inr t)
        show ?thesis
        proof (cases "p_type q = PT_SEP")
          case True
          with run k' Inr ne t show ?thesis by (simp add: again)
        next
          case nsep: False
          show ?thesis
          proof (cases "p_type q = PT_EOL")
            case eol: True
            show ?thesis
            proof (cases "argv = []")
              case True
              with run k' Inr ne t eol show ?thesis by (simp add: again)
            next
              case a: False
              show ?thesis
              proof (cases "picolGetCommand i (argv ! 0)")
                case None
                with run k' Inr ne t eol a show ?thesis by simp
              next
                case (Some c)
                with run Inr ne t eol a obtain x where x: "callCmd k ev c i argv = Some x"
                  by (auto split: option.splits)
                with le have x': "callCmd m ev' c i argv = Some x" using m
                  by (rule callCmd_mono)
                from run k' Inr ne t eol a Some x x' show ?thesis
                  by (auto intro: again split: sum.splits if_splits)
              qed
            qed
          next
            case word: False
            with run Inr ne t nsep obtain x where x: "substToken ev i (p_type q) t = Some x"
              by (auto split: option.splits)
            with le have x': "substToken ev' i (p_type q) t = Some x"
              by (rule substToken_mono)
            from run k' Inr ne t nsep word x x' show ?thesis
              by (auto intro: again split: sum.splits subst.splits)
          qed
        qed
      qed
    qed
  qed
qed

lemma picolEval_mono: "picolEval n i s = Some r \<Longrightarrow> n \<le> n' \<Longrightarrow> picolEval n' i s = Some r"
proof (induction n arbitrary: n' i s r)
  case 0
  then show ?case by simp
next
  case (Suc n)
  from Suc.prems(2) obtain m where n': "n' = Suc m" and m: "n \<le> m" by (cases n') auto
  have le: "picolEval m j t = Some x" if "picolEval n j t = Some x" for j t x
    using that m by (rule Suc.IH)
  from Suc.prems(1) have
    "evalLoop n (picolEval n) (picolSetResult i []) (picolInitParser s)
       (p_type (picolInitParser s)) [] = Some r" by simp
  with le have
    "evalLoop m (picolEval m) (picolSetResult i []) (picolInitParser s)
       (p_type (picolInitParser s)) [] = Some r" using m by (rule evalLoop_mono)
  with n' show ?case by simp
qed

subsection \<open>\<^verbatim>\<open>if\<close>\<close>

text \<open>
  C1, as the specification has it: \<^verbatim>\<open>if { == 1 1 } { set r yes } { set r no }\<close> returns
  \<^verbatim>\<open>PICOL_OK\<close> with the result \<^verbatim>\<open>yes\<close>. It does not, with any fuel.
\<close>

theorem if_without_else_counterexample:
  "\<not> (\<exists>n i'. picolEval n fresh ''if { == 1 1 } { set r yes } { set r no }'' =
                 Some (Inr (PICOL_OK, i')) \<and> result i' = ''yes'')"
proof
  assume "\<exists>n i'. picolEval n fresh ''if { == 1 1 } { set r yes } { set r no }'' =
                 Some (Inr (PICOL_OK, i')) \<and> result i' = ''yes''"
  then obtain n i' where
    ok: "picolEval n fresh ''if { == 1 1 } { set r yes } { set r no }'' = Some (Inr (PICOL_OK, i'))"
    by blast
  have err: "picolEval 12 fresh ''if { == 1 1 } { set r yes } { set r no }'' =
      Some (Inr (PICOL_ERR, fresh\<lparr>result := ''Wrong number of args for if''\<rparr>))"
    by code_simp
  from ok have "picolEval (max n 12) fresh ''if { == 1 1 } { set r yes } { set r no }'' =
      Some (Inr (PICOL_OK, i'))"
    by (rule picolEval_mono) simp
  moreover from err have "picolEval (max n 12) fresh ''if { == 1 1 } { set r yes } { set r no }'' =
      Some (Inr (PICOL_ERR, fresh\<lparr>result := ''Wrong number of args for if''\<rparr>))"
    by (rule picolEval_mono) simp
  ultimately show False by simp
qed

text \<open>
  C1, amended. \<^verbatim>\<open>picolCommandIf\<close> takes three words or five, the fourth being the
  \<^verbatim>\<open>else\<close> that it never looks at. The text of the specification has four words, so on
  the fresh interpreter it returns \<^verbatim>\<open>PICOL_ERR\<close> with the result
  \<^verbatim>\<open>Wrong number of args for if\<close> and \<^verbatim>\<open>r\<close> stays unbound. With the fourth word in
  place, \<^verbatim>\<open>if {== 1 1} {set r yes} else {set r no}\<close> returns \<^verbatim>\<open>PICOL_OK\<close> with the
  result \<^verbatim>\<open>yes\<close> and \<^verbatim>\<open>r\<close> bound to \<^verbatim>\<open>yes\<close> in the current frame. (The braces are
  written without blanks inside: a script that ends in a blank is the subject of C9.)
\<close>

theorem if_needs_three_or_five_words:
  "picolEval 12 fresh ''if { == 1 1 } { set r yes } { set r no }'' =
     Some (Inr (PICOL_ERR, fresh\<lparr>result := ''Wrong number of args for if''\<rparr>)) \<and>
   picolGetVar (fresh\<lparr>result := ''Wrong number of args for if''\<rparr>) ''r'' = Inr None \<and>
   picolEval 12 fresh ''if {== 1 1} {set r yes} else {set r no}'' =
     Some (Inr (PICOL_OK, fresh\<lparr>callframe := [[(''r'', ''yes'')]], result := ''yes''\<rparr>)) \<and>
   picolGetVar (fresh\<lparr>callframe := [[(''r'', ''yes'')]], result := ''yes''\<rparr>) ''r'' =
     Inr (Some (''r'', ''yes''))"
  by code_simp

subsection \<open>The depth of the frame stack\<close>

lemma picolSetVar_depth:
  "picolSetVar i name val = Inr i' \<Longrightarrow> length (callframe i') = length (callframe i)"
  by (auto simp: picolSetVar_def split: list.splits option.splits)

lemma picolDropCallFrame_depth:
  "picolDropCallFrame i = Inr i' \<Longrightarrow> Suc (length (callframe i')) = length (callframe i)"
  by (auto simp: picolDropCallFrame_def split: list.splits)

lemma picolCommandMath_depth:
  "picolCommandMath i argv = Inr (rc, i') \<Longrightarrow> length (callframe i') = length (callframe i)"
  by (auto simp: picolCommandMath_def picolArityErr_def picolErr_def picolSetResult_def
      split: if_splits sum.splits)

lemma picolCommandSet_depth:
  "picolCommandSet i argv = Inr (rc, i') \<Longrightarrow> length (callframe i') = length (callframe i)"
  by (auto simp: picolCommandSet_def picolArityErr_def picolErr_def picolSetResult_def
      dest: picolSetVar_depth split: if_splits sum.splits)

lemma picolCommandPuts_depth:
  "picolCommandPuts i argv = Inr (rc, i') \<Longrightarrow> length (callframe i') = length (callframe i)"
  by (auto simp: picolCommandPuts_def picolArityErr_def picolErr_def split: if_splits)

lemma picolCommandRetCodes_depth:
  "picolCommandRetCodes i argv = Inr (rc, i') \<Longrightarrow> length (callframe i') = length (callframe i)"
  by (auto simp: picolCommandRetCodes_def picolArityErr_def picolErr_def split: if_splits)

lemma picolCommandProc_depth:
  "picolCommandProc i argv = Inr (rc, i') \<Longrightarrow> length (callframe i') = length (callframe i)"
  by (auto simp: picolCommandProc_def picolRegisterCommand_def picolArityErr_def picolErr_def
      split: if_splits option.splits)

lemma picolCommandReturn_depth:
  "picolCommandReturn i argv = Inr (rc, i') \<Longrightarrow> length (callframe i') = length (callframe i)"
  by (auto simp: picolCommandReturn_def picolArityErr_def picolErr_def picolSetResult_def
      split: if_splits)

lemma returns_Inr: "returns r = Some (Inr x) \<Longrightarrow> r = Inr x"
  by (simp add: returns_def split: sum.splits)

lemma procArgs_depth:
  "procArgs i s argv arity = Inr (e, i', arity') \<Longrightarrow>
   length (callframe i') = length (callframe i)"
proof (induction i s argv arity rule: procArgs.induct)
  case (1 i s argv arity)
  let ?d = "dropWhile (\<lambda>c. c \<noteq> CHR '' '') s"
  let ?t = "takeWhile (\<lambda>c. c \<noteq> CHR '' '') s"
  show ?case
  proof (cases "?d \<noteq> [] \<and> ?t = []")
    case True
    then have "procArgs i s argv arity = procArgs i (tl ?d) argv arity"
      by (subst procArgs.simps) simp
    with "1.prems" have "procArgs i (tl ?d) argv arity = Inr (e, i', arity')" by simp
    with True show ?thesis by (rule "1.IH"(1))
  next
    case skip: False
    show ?thesis
    proof (cases "?t = []")
      case True
      with skip have "procArgs i s argv arity = Inr (False, i, arity)"
        by (subst procArgs.simps) simp
      with "1.prems" show ?thesis by simp
    next
      case name: False
      show ?thesis
      proof (cases "arity + 1 > int (length argv) - 1")
        case True
        with skip name have "procArgs i s argv arity = Inr (True, i, arity + 1)"
          by (subst procArgs.simps) simp
        with "1.prems" show ?thesis by simp
      next
        case fits: False
        show ?thesis
        proof (cases "picolSetVar i ?t (argv ! nat (arity + 1))")
          case (Inl f)
          with skip name fits have "procArgs i s argv arity = Inl f"
            by (subst procArgs.simps) simp
          with "1.prems" show ?thesis by simp
        next
          case (Inr i1)
          then have d1: "length (callframe i1) = length (callframe i)"
            by (rule picolSetVar_depth)
          show ?thesis
          proof (cases "?d = []")
            case True
            with skip name fits Inr have "procArgs i s argv arity = Inr (False, i1, arity + 1)"
              by (subst procArgs.simps) simp
            with "1.prems" d1 show ?thesis by simp
          next
            case more: False
            with skip name fits Inr have
              "procArgs i s argv arity = procArgs i1 (tl ?d) argv (arity + 1)"
              by (subst procArgs.simps) auto
            with "1.prems" have "procArgs i1 (tl ?d) argv (arity + 1) = Inr (e, i', arity')"
              by simp
            with skip name fits Inr more have "length (callframe i') = length (callframe i1)"
              by (rule "1.IH"(2))
            with d1 show ?thesis by simp
          qed
        qed
      qed
    qed
  qed
qed

lemma picolCommandIf_depth:
  assumes ev: "\<And>i s rc i'. ev i s = Some (Inr (rc, i')) \<Longrightarrow>
                 length (callframe i') = length (callframe i)"
    and "picolCommandIf ev i argv = Some (Inr (rc, i'))"
  shows "length (callframe i') = length (callframe i)"
  using assms(2)
  by (auto simp: picolCommandIf_def picolArityErr_def picolErr_def
      split: if_splits option.splits sum.splits dest!: ev)

lemma picolCommandWhile_depth:
  assumes ev: "\<And>i s rc i'. ev i s = Some (Inr (rc, i')) \<Longrightarrow>
                 length (callframe i') = length (callframe i)"
  shows "picolCommandWhile k ev i argv = Some (Inr (rc, i')) \<Longrightarrow>
         length (callframe i') = length (callframe i)"
proof (induction k arbitrary: i)
  case 0
  then show ?case by (auto simp: picolArityErr_def picolErr_def split: if_splits)
next
  case (Suc k)
  from Suc.prems show ?case
    by (auto simp: picolArityErr_def picolErr_def
        split: if_splits option.splits sum.splits dest!: ev Suc.IH)
qed

lemma picolCommandCallProc_depth:
  assumes ev: "\<And>i s rc i'. ev i s = Some (Inr (rc, i')) \<Longrightarrow>
                 length (callframe i') = length (callframe i)"
    and "picolCommandCallProc ev i argv pd = Some (Inr (rc, i'))"
  shows "length (callframe i') = length (callframe i)"
  using assms(2)
  by (auto simp: picolCommandCallProc_def picolErr_def
      split: if_splits option.splits sum.splits
      dest!: ev procArgs_depth picolDropCallFrame_depth)

lemma callCmd_depth:
  assumes ev: "\<And>i s rc i'. ev i s = Some (Inr (rc, i')) \<Longrightarrow>
                 length (callframe i') = length (callframe i)"
    and call: "callCmd k ev c i argv = Some (Inr (rc, i'))"
  shows "length (callframe i') = length (callframe i)"
proof (cases "c_func c")
  case CommandMath
  with call show ?thesis
    by (simp add: callCmd_def) (rule picolCommandMath_depth, rule returns_Inr)
next
  case CommandSet
  with call show ?thesis
    by (simp add: callCmd_def) (rule picolCommandSet_depth, rule returns_Inr)
next
  case CommandPuts
  with call show ?thesis
    by (simp add: callCmd_def) (rule picolCommandPuts_depth, rule returns_Inr)
next
  case CommandIf
  with call have "picolCommandIf ev i argv = Some (Inr (rc, i'))" by (simp add: callCmd_def)
  with ev show ?thesis by (rule picolCommandIf_depth)
next
  case CommandWhile
  with call have "picolCommandWhile k ev i argv = Some (Inr (rc, i'))"
    by (simp add: callCmd_def)
  with ev show ?thesis by (rule picolCommandWhile_depth)
next
  case CommandRetCodes
  with call show ?thesis
    by (simp add: callCmd_def) (rule picolCommandRetCodes_depth, rule returns_Inr)
next
  case CommandCallProc
  with call have "picolCommandCallProc ev i argv (c_privdata c) = Some (Inr (rc, i'))"
    by (simp add: callCmd_def)
  with ev show ?thesis by (rule picolCommandCallProc_depth)
next
  case CommandProc
  with call show ?thesis
    by (simp add: callCmd_def) (rule picolCommandProc_depth, rule returns_Inr)
next
  case CommandReturn
  with call show ?thesis
    by (simp add: callCmd_def) (rule picolCommandReturn_depth, rule returns_Inr)
qed

lemma substToken_depth:
  assumes ev: "\<And>i s rc i'. ev i s = Some (Inr (rc, i')) \<Longrightarrow>
                 length (callframe i') = length (callframe i)"
  shows "substToken ev i ty t = Some (Inr (Leave (rc, i'))) \<Longrightarrow>
           length (callframe i') = length (callframe i)"
    and "substToken ev i ty t = Some (Inr (Word i' b tlen)) \<Longrightarrow>
           length (callframe i') = length (callframe i)"
  by (auto simp: substToken_def picolErr_def
      split: if_splits option.splits sum.splits dest!: ev)

lemma evalLoop_depth:
  assumes ev: "\<And>i s rc i'. ev i s = Some (Inr (rc, i')) \<Longrightarrow>
                 length (callframe i') = length (callframe i)"
  shows "evalLoop k ev i p prevtype argv = Some (Inr (rc, i')) \<Longrightarrow>
         length (callframe i') = length (callframe i)"
proof (induction k arbitrary: i p prevtype argv)
  case 0
  then show ?case by simp
next
  case (Suc k)
  from Suc.prems obtain q t where q: "picolGetToken p = Inr q" and t: "p_type q = PT_EOF \<or> token q = Inr t"
    by (auto split: sum.splits if_splits)
  consider (eof) "p_type q = PT_EOF" | (sep) "p_type q = PT_SEP" "token q = Inr t"
    | (eol) "p_type q = PT_EOL" "token q = Inr t"
    | (word) "p_type q \<noteq> PT_EOF" "p_type q \<noteq> PT_SEP" "p_type q \<noteq> PT_EOL" "token q = Inr t"
    using t by blast
  then show ?case
  proof cases
    case eof
    with Suc.prems q show ?thesis by simp
  next
    case sep
    with Suc.prems q show ?thesis by (auto dest: Suc.IH)
  next
    case eol
    have called: "length (callframe i1) = length (callframe j)"
      if "callCmd k ev c j argv = Some (Inr (rc1, i1))" for c j rc1 i1
      using ev that by (rule callCmd_depth)
    from eol Suc.prems q show ?thesis
      by (auto simp: picolErr_def split: if_splits option.splits sum.splits
          dest!: Suc.IH called)
  next
    case word
    have left: "length (callframe i1) = length (callframe j)"
      if "substToken ev j ty w = Some (Inr (Leave (rc1, i1)))" for j ty w rc1 i1
      using ev that by (rule substToken_depth(1))
    have worded: "length (callframe i1) = length (callframe j)"
      if "substToken ev j ty w = Some (Inr (Word i1 b tlen))" for j ty w i1 b tlen
      using ev that by (rule substToken_depth(2))
    from word Suc.prems q show ?thesis
      by (auto split: option.splits sum.splits subst.splits
          dest!: Suc.IH left worded)
  qed
qed

lemma picolEval_depth:
  "picolEval n i s = Some (Inr (rc, i')) \<Longrightarrow> length (callframe i') = length (callframe i)"
proof (induction n arbitrary: i s rc i')
  case 0
  then show ?case by simp
next
  case (Suc n)
  from Suc.prems have
    "length (callframe i') = length (callframe (picolSetResult i []))"
    using evalLoop_depth [of "picolEval n" n "picolSetResult i []" "picolInitParser s"
        "p_type (picolInitParser s)" "[]" rc i'] Suc.IH
    by simp
  then show ?case by (simp add: picolSetResult_def)
qed

text \<open>
  C5. Whatever the interpreter, the text, the fuel and the return code, the frame stack
  is as deep after \<^verbatim>\<open>picolEval\<close> returns as before the call; and
  \<^verbatim>\<open>picolCommandCallProc\<close>, which pushes a frame, has dropped it when it returns, after
  the body (whatever its code) and after an arity mismatch alike.
\<close>

theorem eval_keeps_frame_depth:
  "(picolEval n i s = Some (Inr (rc, i')) \<longrightarrow>
      length (callframe i') = length (callframe i)) \<and>
   (picolCommandCallProc (picolEval n) i argv pd = Some (Inr (rc, i')) \<longrightarrow>
      length (callframe i') = length (callframe i))"
proof (intro conjI impI)
  assume "picolEval n i s = Some (Inr (rc, i'))"
  then show "length (callframe i') = length (callframe i)" by (rule picolEval_depth)
next
  assume "picolCommandCallProc (picolEval n) i argv pd = Some (Inr (rc, i'))"
  with picolEval_depth show "length (callframe i') = length (callframe i)"
    by (rule picolCommandCallProc_depth)
qed

theorem eval_keeps_frame_depth_witness:
  "picolEval 20 fresh ''proc sq {n} {return [* $n $n]};puts [sq 7]'' =
     Some (Inr (PICOL_OK,
       fresh\<lparr>commands := \<lparr>c_name = ''sq'', c_func = CommandCallProc,
                            c_privdata = Some (''n'', ''return [* $n $n]'')\<rparr> # commands fresh,
             result := ''49'', stdout := [''49'']\<rparr>)) \<and>
   picolCommandCallProc (picolEval 20) fresh [''f'', ''1''] (Some (''a b'', ''return $a'')) =
     Some (Inr (PICOL_ERR,
       fresh\<lparr>result := ''Proc '' @ [CHR 0x27] @ ''f'' @ [CHR 0x27] @ '' called with wrong arg num''\<rparr>)) \<and>
   picolCommandCallProc (picolEval 20) fresh [''g'', ''1''] (Some (''a'', ''nosuch $a'')) =
     Some (Inr (PICOL_ERR, fresh\<lparr>result := ''No such command '' @ [CHR 0x27] @ ''nosuch'' @ [CHR 0x27]\<rparr>)) \<and>
   length (callframe fresh) = 1"
proof -
  let ?sq = "fresh\<lparr>commands := \<lparr>c_name = ''sq'', c_func = CommandCallProc,
                            c_privdata = Some (''n'', ''return [* $n $n]'')\<rparr> # commands fresh,
             result := ''49'', stdout := [''49'']\<rparr>"
  let ?f = "fresh\<lparr>result := ''Proc '' @ [CHR 0x27] @ ''f'' @ [CHR 0x27] @ '' called with wrong arg num''\<rparr>"
  let ?g = "fresh\<lparr>result := ''No such command '' @ [CHR 0x27] @ ''nosuch'' @ [CHR 0x27]\<rparr>"
  have sq: "picolEval 20 fresh ''proc sq {n} {return [* $n $n]};puts [sq 7]'' =
      Some (Inr (PICOL_OK, ?sq))"
    by code_simp
  have f: "picolCommandCallProc (picolEval 20) fresh [''f'', ''1'']
      (Some (''a b'', ''return $a'')) = Some (Inr (PICOL_ERR, ?f))"
    by code_simp
  have g: "picolCommandCallProc (picolEval 20) fresh [''g'', ''1'']
      (Some (''a'', ''nosuch $a'')) = Some (Inr (PICOL_ERR, ?g))"
    by code_simp
  have "length (callframe ?sq) = length (callframe fresh)"
    using eval_keeps_frame_depth [THEN conjunct1, rule_format, OF sq] .
  moreover have "length (callframe ?f) = length (callframe fresh)"
    using eval_keeps_frame_depth [THEN conjunct2, rule_format, OF f] .
  moreover have "length (callframe fresh) = 1" by code_simp
  ultimately show ?thesis using sq f g by simp
qed

subsection \<open>\<^verbatim>\<open>while\<close> and \<^verbatim>\<open>break\<close>\<close>

text \<open>
  With a condition that is true and a body that returns \<^verbatim>\<open>PICOL_BREAK\<close>, one round of
  \<^verbatim>\<open>picolCommandWhile\<close> is followed by the next.
\<close>

lemma picolCommandWhile_break_goes_round:
  assumes "ev i c = Some (Inr (PICOL_OK, i1))" "atoi (result i1) = Inr v" "v \<noteq> 0"
    "ev i1 b = Some (Inr (PICOL_BREAK, i2))"
  shows "picolCommandWhile (Suc k) ev i [w, c, b] = picolCommandWhile k ev i2 [w, c, b]"
  using assms by simp

text \<open>
  C6. The specification has \<^verbatim>\<open>PICOL_BREAK\<close> from the body end the loop with
  \<^verbatim>\<open>PICOL_OK\<close>. In \<^verbatim>\<open>picolCommandWhile\<close> it does not: the loop below breaks in its
  first round, with \<^verbatim>\<open>x\<close> at 1, and yet runs until its condition fails, with \<^verbatim>\<open>x\<close> at 3
  and the result \<^verbatim>\<open>0\<close> of the last test.
\<close>

theorem while_break_does_not_leave_the_loop:
  "picolEval 20 fresh ''set x 0;while {< $x 3} {set x [+ $x 1];break}'' =
     Some (Inr (PICOL_OK, fresh\<lparr>callframe := [[(''x'', ''3'')]], result := ''0''\<rparr>))"
  by code_simp

end
